theory Spec2Isabelle
  imports Complex_Main "HOL-Library.Sublist" "HOL-Library.Multiset"
begin

section \<open>The predictive prefetcher of \<open>src/index.js\<close>\<close>

text \<open>
  The class \<open>PredictivePrefetcher\<close> is embedded method by method. Every method takes the
  instance and returns it, together with what the method returns.

  Conventions of the embedding:
  \<^item> a JavaScript \<open>Map\<close> is an association list in insertion order: \<open>get\<close> is \<open>map_of\<close>,
    \<open>set\<close> is \<open>map_set\<close> (an existing key keeps its place, a new key goes last);
  \<^item> states and URLs are \<open>string\<close>s; \<open>null\<close> is \<open>None\<close>;
  \<^item> \<open>Date.now()\<close> is an argument (milliseconds, an \<open>int\<close>);
  \<^item> a number is a \<open>jsnum\<close>: a real, \<open>Infinity\<close>, \<open>-Infinity\<close> or \<open>NaN\<close>. Sizes,
    latencies, the decay rate and the scores are \<open>jsnum\<close>s, and the arithmetic of
    scoring (\<open>Math.exp\<close>, products, the division by the cost) is done on them with the
    overflow and underflow thresholds of IEEE 754 binary64 written out in \<open>fl\<close>. The
    rounding of the significand and the sign of zero are not modelled. The
    \<open>maxPrefetch\<close> option is a finite number, a real;
  \<^item> transition counts are naturals, and the one place where a double stops counting
    (\<open>2^53 + 1 = 2^53\<close>) is written out in \<open>js_incr\<close>. A probability is the exact
    quotient of a count and the total of the counts, where the code stores the double
    nearest to it; the total is positive in every table that the public operations
    build. What is proved of \<open>predictNext\<close> is which predictions it returns and in
    which order; nothing is proved about the rounding error of the probabilities or
    of their sum;
  \<^item> the network is the environment: a schedule lists, in the order in which the reactions
    run, which dispatched fetch settled, how, and what the clock showed.
\<close>

subsection \<open>Data\<close>

datatype jsnum = Num real | PosInf | NegInf | NaN

record resource =
  size_res :: jsnum
  latency :: jsnum
  lastUsed :: int

record prediction =
  state :: string
  probability :: real

record scored =
  url :: string
  score :: jsnum

record options =
  opt_maxPrefetch :: "real option"
  opt_decayRate :: "jsnum option"

record metadata =
  md_size :: "jsnum option"
  md_latency :: "jsnum option"

record prefetcher =
  maxPrefetch :: real
  decayRate :: jsnum
  transitions :: "(string \<times> (string \<times> nat) list) list"
  resources :: "(string \<times> resource) list"
  currentState :: "string option"

subsection \<open>Library functions of the language\<close>

text \<open>\<open>Map.prototype.set\<close>.\<close>

fun map_set :: "'k \<Rightarrow> 'v \<Rightarrow> ('k \<times> 'v) list \<Rightarrow> ('k \<times> 'v) list" where
  "map_set k v [] = [(k, v)]"
| "map_set k v (e # es) = (if fst e = k then (k, v) # es else e # map_set k v es)"

text \<open>\<open>x || d\<close> on an optional finite number: \<open>undefined\<close> and \<open>0\<close> are falsy.\<close>

definition js_or :: "real option \<Rightarrow> real \<Rightarrow> real" where
  "js_or x d = (case x of None \<Rightarrow> d | Some v \<Rightarrow> if v = 0 then d else v)"

text \<open>A destructuring default \<open>{ f = d }\<close>: only \<open>undefined\<close> takes the default.\<close>

definition js_default :: "jsnum option \<Rightarrow> jsnum \<Rightarrow> jsnum" where
  "js_default x d = (case x of None \<Rightarrow> d | Some v \<Rightarrow> v)"

text \<open>\<open>count + 1\<close> on a double holding a natural number.\<close>

definition js_incr :: "nat \<Rightarrow> nat" where
  "js_incr c = (if c < 2 ^ 53 then c + 1 else c)"

text \<open>\<open>String.prototype.includes\<close>: \<open>str_includes u s\<close> is \<open>u.includes(s)\<close>.\<close>

fun str_includes :: "string \<Rightarrow> string \<Rightarrow> bool" where
  "str_includes [] s = (s = [])"
| "str_includes (c # cs) s = (prefix s (c # cs) \<or> str_includes cs s)"

text \<open>
  The result of an arithmetic operation whose exact value is \<open>x\<close>: round-to-nearest
  overflows from \<open>2^1024 - 2^970\<close> on and gives zero up to \<open>2^-1075\<close>. A sum or a
  difference of two doubles is a multiple of the smallest subnormal, so it overflows
  but never underflows (\<open>fl_sum\<close>).
\<close>

definition fl_sum :: "real \<Rightarrow> jsnum" where
  "fl_sum x =
     (if 2 ^ 1024 - 2 ^ 970 \<le> x then PosInf
      else if x \<le> - (2 ^ 1024 - 2 ^ 970) then NegInf
      else Num x)"

definition fl :: "real \<Rightarrow> jsnum" where
  "fl x = (if \<bar>x\<bar> \<le> 1 / 2 ^ 1075 then Num 0 else fl_sum x)"

fun js_neg :: "jsnum \<Rightarrow> jsnum" where
  "js_neg (Num a) = Num (- a)"
| "js_neg PosInf = NegInf"
| "js_neg NegInf = PosInf"
| "js_neg NaN = NaN"

text \<open>\<open>a * b\<close>, \<open>a / b\<close>, \<open>a - b\<close> and \<open>Math.exp(a)\<close>.\<close>

fun js_mul :: "jsnum \<Rightarrow> jsnum \<Rightarrow> jsnum" where
  "js_mul (Num a) (Num b) = fl (a * b)"
| "js_mul NaN y = NaN"
| "js_mul x NaN = NaN"
| "js_mul (Num a) y = (if a = 0 then NaN else if 0 < a then y else js_neg y)"
| "js_mul x (Num b) = (if b = 0 then NaN else if 0 < b then x else js_neg x)"
| "js_mul PosInf y = y"
| "js_mul NegInf y = js_neg y"

fun js_div :: "jsnum \<Rightarrow> jsnum \<Rightarrow> jsnum" where
  "js_div (Num a) (Num b) =
     (if b = 0 then (if a = 0 then NaN else if 0 < a then PosInf else NegInf)
      else fl (a / b))"
| "js_div NaN y = NaN"
| "js_div x NaN = NaN"
| "js_div (Num a) y = Num 0"
| "js_div x (Num b) = (if 0 \<le> b then x else js_neg x)"
| "js_div PosInf PosInf = NaN"
| "js_div PosInf NegInf = NaN"
| "js_div NegInf PosInf = NaN"
| "js_div NegInf NegInf = NaN"

fun js_sub :: "jsnum \<Rightarrow> jsnum \<Rightarrow> jsnum" where
  "js_sub (Num a) (Num b) = fl_sum (a - b)"
| "js_sub NaN y = NaN"
| "js_sub x NaN = NaN"
| "js_sub (Num a) y = js_neg y"
| "js_sub x (Num b) = x"
| "js_sub PosInf NegInf = PosInf"
| "js_sub NegInf PosInf = NegInf"
| "js_sub PosInf PosInf = NaN"
| "js_sub NegInf NegInf = NaN"

fun js_exp :: "jsnum \<Rightarrow> jsnum" where
  "js_exp (Num a) = fl (exp a)"
| "js_exp PosInf = PosInf"
| "js_exp NegInf = Num 0"
| "js_exp NaN = NaN"

text \<open>
  \<open>x || d\<close> on a number: \<open>0\<close> and \<open>NaN\<close> are falsy. \<open>js_or_opt\<close> is the same on an
  option that may be missing.
\<close>

definition js_or_num :: "jsnum \<Rightarrow> jsnum \<Rightarrow> jsnum" where
  "js_or_num x d = (if x = Num 0 \<or> x = NaN then d else x)"

definition js_or_opt :: "jsnum option \<Rightarrow> jsnum \<Rightarrow> jsnum" where
  "js_or_opt x d = (case x of None \<Rightarrow> d | Some v \<Rightarrow> js_or_num v d)"

text \<open>\<open>0 <= x\<close> on a number: true of \<open>Infinity\<close>, false of \<open>NaN\<close>.\<close>

fun js_nonneg :: "jsnum \<Rightarrow> bool" where
  "js_nonneg (Num a) = (0 \<le> a)"
| "js_nonneg PosInf = True"
| "js_nonneg NegInf = False"
| "js_nonneg NaN = False"

text \<open>
  A finite number, and a nonzero subnormal one: positive and below \<open>2^-1022\<close>, the
  smallest normal double.
\<close>

fun js_finite :: "jsnum \<Rightarrow> bool" where
  "js_finite (Num a) = True"
| "js_finite PosInf = False"
| "js_finite NegInf = False"
| "js_finite NaN = False"

fun subnormal :: "jsnum \<Rightarrow> bool" where
  "subnormal (Num c) = (0 < c \<and> c < 1 / 2 ^ 1022)"
| "subnormal PosInf = False"
| "subnormal NegInf = False"
| "subnormal NaN = False"

text \<open>
  \<open>Array.prototype.sort(cmp)\<close>: a stable sort; \<open>a\<close> stays before \<open>b\<close> unless
  \<open>cmp(a, b) > 0\<close> (a comparator value of \<open>NaN\<close> counts as \<open>0\<close>).
\<close>

fun js_positive :: "jsnum \<Rightarrow> bool" where
  "js_positive (Num a) = (0 < a)"
| "js_positive PosInf = True"
| "js_positive NegInf = False"
| "js_positive NaN = False"

fun insert_by :: "('a \<Rightarrow> 'a \<Rightarrow> jsnum) \<Rightarrow> 'a \<Rightarrow> 'a list \<Rightarrow> 'a list" where
  "insert_by cmp x [] = [x]"
| "insert_by cmp x (y # ys) =
     (if js_positive (cmp x y) then y # insert_by cmp x ys else x # y # ys)"

definition array_sort :: "('a \<Rightarrow> 'a \<Rightarrow> jsnum) \<Rightarrow> 'a list \<Rightarrow> 'a list" where
  "array_sort cmp xs = foldr (insert_by cmp) xs []"

text \<open>
  \<open>xs.slice(0, e)\<close>: \<open>e\<close> is truncated towards zero; a negative end counts from the end
  of the array.
\<close>

definition to_integer :: "real \<Rightarrow> int" where
  "to_integer x = (if x < 0 then \<lceil>x\<rceil> else \<lfloor>x\<rfloor>)"

definition slice0 :: "real \<Rightarrow> 'a list \<Rightarrow> 'a list" where
  "slice0 e xs =
     (let len = int (length xs);
          rel = to_integer e;
          fin = (if rel < 0 then max (len + rel) 0 else min rel len)
      in take (nat fin) xs)"

subsection \<open>Constructor, \<open>track\<close>, \<open>addResource\<close>\<close>

definition new :: "options \<Rightarrow> prefetcher" where
  "new opts =
     \<lparr> maxPrefetch = js_or (opt_maxPrefetch opts) 3,
       decayRate = js_or_opt (opt_decayRate opts) (Num (1 / 10)),
       transitions = [],
       resources = [],
       currentState = None \<rparr>"

definition no_options :: options where
  "no_options = \<lparr> opt_maxPrefetch = None, opt_decayRate = None \<rparr>"

text \<open>In \<open>this.currentState && this.currentState !== state\<close>, \<open>null\<close> and \<open>""\<close> are falsy.\<close>

definition track :: "string \<Rightarrow> string \<Rightarrow> prefetcher \<Rightarrow> prefetcher" where
  "track eventType st p =
     (let p1 =
        (case currentState p of
           None \<Rightarrow> p
         | Some cur \<Rightarrow>
             if cur \<noteq> [] \<and> cur \<noteq> st then
               let nextMap = (case map_of (transitions p) cur of None \<Rightarrow> [] | Some m \<Rightarrow> m);
                   count = (case map_of nextMap st of None \<Rightarrow> 0 | Some c \<Rightarrow> c);
                   nextMap1 = map_set st (js_incr count) nextMap
               in p\<lparr> transitions := map_set cur nextMap1 (transitions p) \<rparr>
             else p)
      in p1\<lparr> currentState := Some st \<rparr>)"

definition addResource :: "string \<Rightarrow> metadata option \<Rightarrow> int \<Rightarrow> prefetcher \<Rightarrow> prefetcher" where
  "addResource u md now p =
     (let m = (case md of None \<Rightarrow> \<lparr> md_size = None, md_latency = None \<rparr> | Some m \<Rightarrow> m);
          r = \<lparr> size_res = js_default (md_size m) (Num 100),
                latency = js_default (md_latency m) (Num 100),
                lastUsed = now \<rparr>
      in p\<lparr> resources := map_set u r (resources p) \<rparr>)"

subsection \<open>\<open>predictNext\<close> and \<open>scoreResources\<close>\<close>

text \<open>
  The comparators \<open>(a, b) => b.probability - a.probability\<close> and
  \<open>(a, b) => b.score - a.score\<close>. Probabilities are exact, and so is their difference.
\<close>

definition by_probability_desc :: "prediction \<Rightarrow> prediction \<Rightarrow> jsnum" where
  "by_probability_desc a b = Num (probability b - probability a)"

definition by_score_desc :: "scored \<Rightarrow> scored \<Rightarrow> jsnum" where
  "by_score_desc a b = js_sub (score b) (score a)"

text \<open>
  \<open>predictNext\<close>. The quotient \<open>count / totalTransitions\<close> is taken exactly; the code
  stores the double nearest to it.
\<close>

definition predictNext :: "prefetcher \<Rightarrow> prediction list \<times> prefetcher" where
  "predictNext p =
     (case currentState p of
        None \<Rightarrow> ([], p)
      | Some cur \<Rightarrow>
          if cur = [] then ([], p)
          else
            (case map_of (transitions p) cur of
               None \<Rightarrow> ([], p)
             | Some nextMap \<Rightarrow>
                 let totalTransitions = foldl (+) 0 (map snd nextMap);
                     predictions =
                       map (\<lambda>(nextState, count).
                              \<lparr> state = nextState,
                                probability = real count / real totalTransitions \<rparr>)
                           nextMap
                 in (array_sort by_probability_desc predictions, p)))"

text \<open>
  The body of the inner loop of \<open>scoreResources\<close>, for one matching resource:
  \<open>decay\<close>, \<open>cost\<close>, the divisor \<open>cost || 1\<close> and \<open>score\<close>. Clock readings are integers
  of magnitude at most \<open>8.64e15\<close>, so \<open>(now - lastUsed) / 1000\<close> stays in range and is
  taken as it is.
\<close>

definition decay_of :: "prefetcher \<Rightarrow> int \<Rightarrow> resource \<Rightarrow> jsnum" where
  "decay_of p now r =
     (let timeElapsed = Num (real_of_int (now - lastUsed r) / 1000)
      in js_exp (js_mul (js_neg (decayRate p)) timeElapsed))"

definition cost_of :: "resource \<Rightarrow> jsnum" where
  "cost_of r = js_mul (size_res r) (latency r)"

definition divisor_of :: "resource \<Rightarrow> jsnum" where
  "divisor_of r = js_or_num (cost_of r) (Num 1)"

definition score_of :: "prefetcher \<Rightarrow> int \<Rightarrow> real \<Rightarrow> resource \<Rightarrow> jsnum" where
  "score_of p now prob r = js_div (js_mul (Num prob) (decay_of p now r)) (divisor_of r)"

definition scoreResources :: "prediction list \<Rightarrow> int \<Rightarrow> prefetcher \<Rightarrow> scored list \<times> prefetcher" where
  "scoreResources predictions now p =
     (let scores =
        concat (map (\<lambda>pr.
          concat (map (\<lambda>(u, r).
            if str_includes u (state pr)
            then [\<lparr> url = u, score = score_of p now (probability pr) r \<rparr>]
            else [])
          (resources p)))
        predictions)
      in (array_sort by_score_desc scores, p))"

subsection \<open>\<open>prefetch\<close> and \<open>optimize\<close>\<close>

text \<open>
  A promise is fulfilled, rejected or still pending. A settlement event says that the
  fetch dispatched at position \<open>ev_index\<close> of the batch succeeded or failed, and that
  \<open>Date.now()\<close> was \<open>ev_now\<close> when its reaction ran.
\<close>

datatype promise = Fulfilled | Rejected | Pending

datatype fetch_result = Succeeded | Failed

record event =
  ev_index :: nat
  ev_result :: fetch_result
  ev_now :: int

text \<open>The \<open>.then\<close> callback: it refreshes \<open>lastUsed\<close> of a registered URL and does not throw.\<close>

definition on_fulfilled :: "string \<Rightarrow> int \<Rightarrow> prefetcher \<Rightarrow> promise \<times> prefetcher" where
  "on_fulfilled u now p =
     (case map_of (resources p) u of
        None \<Rightarrow> (Fulfilled, p)
      | Some resource \<Rightarrow>
          (Fulfilled, p\<lparr> resources := map_set u (resource\<lparr> lastUsed := now \<rparr>) (resources p) \<rparr>))"

text \<open>The \<open>.catch\<close> callback: it warns and does not throw.\<close>

definition on_rejected :: "string \<Rightarrow> prefetcher \<Rightarrow> promise \<times> prefetcher" where
  "on_rejected u p = (Fulfilled, p)"

text \<open>
  \<open>fetch(url).then(...).catch(...)\<close>, once the fetch has settled: a rejection, of the
  fetch or of the \<open>.then\<close> callback, goes to the \<open>.catch\<close> callback.
\<close>

definition chain :: "string \<Rightarrow> fetch_result \<Rightarrow> int \<Rightarrow> prefetcher \<Rightarrow> promise \<times> prefetcher" where
  "chain u r now p =
     (case r of
        Failed \<Rightarrow> on_rejected u p
      | Succeeded \<Rightarrow>
          (case on_fulfilled u now p of
             (Rejected, p1) \<Rightarrow> on_rejected u p1
           | (r1, p1) \<Rightarrow> (r1, p1)))"

text \<open>
  The reactions of a schedule, in order. \<open>ps\<close> holds the promise of every position of the
  batch; a promise settles once, so an event for a settled position, or for a position
  outside the batch, does nothing.
\<close>

fun settle :: "string list \<Rightarrow> event list \<Rightarrow> promise list \<Rightarrow> prefetcher \<Rightarrow> promise list \<times> prefetcher" where
  "settle us [] ps p = (ps, p)"
| "settle us (e # es) ps p =
     (if ev_index e < length us \<and> ps ! ev_index e = Pending then
        (case chain (us ! ev_index e) (ev_result e) (ev_now e) p of
           (r, p1) \<Rightarrow> settle us es (ps[ev_index e := r]) p1)
      else settle us es ps p)"

text \<open>\<open>Promise.all\<close>.\<close>

definition promise_all :: "promise list \<Rightarrow> promise" where
  "promise_all ps =
     (if Rejected \<in> set ps then Rejected
      else if Pending \<in> set ps then Pending
      else Fulfilled)"

text \<open>
  \<open>prefetch\<close> returns its own promise, the URLs it passed to \<open>fetch\<close> (in order), and the
  instance.
\<close>

definition prefetch :: "scored list \<Rightarrow> event list \<Rightarrow> prefetcher \<Rightarrow> promise \<times> string list \<times> prefetcher" where
  "prefetch urls sched p =
     (let toFetch = slice0 (maxPrefetch p) urls;
          dispatched = map url toFetch
      in (case settle dispatched sched (replicate (length dispatched) Pending) p of
            (promises, p1) \<Rightarrow> (promise_all promises, dispatched, p1)))"

definition optimize :: "int \<Rightarrow> event list \<Rightarrow> prefetcher \<Rightarrow> promise \<times> string list \<times> prefetcher" where
  "optimize now sched p =
     (case predictNext p of
        (predictions, p1) \<Rightarrow>
          if length predictions = 0 then (Fulfilled, [], p1)
          else
            (case scoreResources predictions now p1 of
               (scoredResources, p2) \<Rightarrow>
                 if length scoredResources = 0 then (Fulfilled, [], p2)
                 else prefetch scoredResources sched p2))"

subsection \<open>Sequences of public operations\<close>

datatype operation =
  Track string string
| AddResource string "metadata option" int
| Optimize int "event list"

fun exec :: "operation \<Rightarrow> prefetcher \<Rightarrow> prefetcher" where
  "exec (Track eventType st) p = track eventType st p"
| "exec (AddResource u md now) p = addResource u md now p"
| "exec (Optimize now sched) p = snd (snd (optimize now sched p))"

definition run :: "operation list \<Rightarrow> prefetcher \<Rightarrow> prefetcher" where
  "run ops p = fold exec ops p"

text \<open>
  What the registry must hold after a batch: the clock of the last successful fetch of
  \<open>u\<close> in the schedule, if there is one.
\<close>

fun last_success :: "string list \<Rightarrow> event list \<Rightarrow> string \<Rightarrow> int option" where
  "last_success us [] u = None"
| "last_success us (e # es) u =
     (case last_success us es u of
        Some t \<Rightarrow> Some t
      | None \<Rightarrow>
          if ev_index e < length us \<and> us ! ev_index e = u \<and> ev_result e = Succeeded
          then Some (ev_now e) else None)"

text \<open>
  The invariant of the transition table: no edge leaves \<open>""\<close>, no inner map is empty or
  has a key twice, and no count is zero.
\<close>

definition table_ok :: "(string \<times> (string \<times> nat) list) list \<Rightarrow> bool" where
  "table_ok t =
     (\<forall>(s, nextMap) \<in> set t.
        s \<noteq> [] \<and> nextMap \<noteq> [] \<and> distinct (map fst nextMap) \<and>
        (\<forall>(d, c) \<in> set nextMap. 1 \<le> c))"

text \<open>
  The scenario of the specification: \<open>/home\<close> to \<open>/products\<close> three times, \<open>/home\<close> to
  \<open>/about\<close> once, and back on \<open>/home\<close>.
\<close>

definition scenario :: "operation list" where
  "scenario =
     [Track ''pageview'' ''/home'', Track ''pageview'' ''/products'',
      Track ''pageview'' ''/home'', Track ''pageview'' ''/products'',
      Track ''pageview'' ''/home'', Track ''pageview'' ''/products'',
      Track ''pageview'' ''/home'', Track ''pageview'' ''/about'',
      Track ''pageview'' ''/home'']"

text \<open>
  A batch of two registered URLs in which the fetch of the second succeeds first and the
  fetch of the first fails afterwards.
\<close>

definition two_resources :: prefetcher where
  "two_resources =
     run [AddResource ''/api/a'' None 0, AddResource ''/api/b'' None 0] (new no_options)"

definition batch_ab :: "scored list" where
  "batch_ab = [\<lparr> url = ''/api/a'', score = Num 2 \<rparr>, \<lparr> url = ''/api/b'', score = Num 1 \<rparr>]"

definition b_succeeds_a_fails :: "event list" where
  "b_succeeds_a_fails =
     [\<lparr> ev_index = 1, ev_result = Succeeded, ev_now = 20 \<rparr>,
      \<lparr> ev_index = 0, ev_result = Failed, ev_now = 30 \<rparr>]"

text \<open>The values a score can take: not negative, but possibly \<open>Infinity\<close> or \<open>NaN\<close>.\<close>

definition not_negative :: "jsnum \<Rightarrow> bool" where
  "not_negative v = (v = NaN \<or> v = PosInf \<or> (\<exists>x. v = Num x \<and> 0 \<le> x))"

text \<open>
  Registries for the scores: \<open>/api/products\<close> (size 500, latency 200) with a stylesheet of
  size 0; a resource whose size and latency are \<open>2^-520\<close>, so that their product is a
  subnormal double; a resource registered 10240 seconds after the clock reading that
  scoring will see; and a resource of an instance constructed with
  \<open>decayRate: Infinity\<close>.
\<close>

definition products_registry :: prefetcher where
  "products_registry =
     run [AddResource ''/api/products''
            (Some \<lparr> md_size = Some (Num 500), md_latency = Some (Num 200) \<rparr>) 0,
          AddResource ''/products.css'' (Some \<lparr> md_size = Some (Num 0), md_latency = None \<rparr>) 0]
       (new no_options)"

definition tiny_cost :: prefetcher where
  "tiny_cost =
     addResource ''/a''
       (Some \<lparr> md_size = Some (Num (1 / 2 ^ 520)), md_latency = Some (Num (1 / 2 ^ 520)) \<rparr>) 0
       (new no_options)"

definition used_later :: prefetcher where
  "used_later = addResource ''/a'' None 10240000 (new no_options)"

definition infinite_decay :: prefetcher where
  "infinite_decay =
     addResource ''/a'' None 0 (new \<lparr> opt_maxPrefetch = None, opt_decayRate = Some PosInf \<rparr>)"

section \<open>Properties\<close>

subsection \<open>The language library\<close>

lemma map_of_map_set: "map_of (map_set k v m) = (map_of m)(k \<mapsto> v)"
  by (induction m) auto

lemma keys_map_set: "set (map fst (map_set k v m)) = insert k (set (map fst m))"
  by (induction m) auto

lemma distinct_map_set: "distinct (map fst m) \<Longrightarrow> distinct (map fst (map_set k v m))"
  by (induction m) (auto simp: keys_map_set [simplified])

lemma set_map_set: "set (map_set k v m) \<subseteq> insert (k, v) (set m)"
  by (induction m) auto

lemma js_incr_pos: "1 \<le> js_incr c"
  by (simp add: js_incr_def)

subsection \<open>Readers\<close>

lemma predictNext_snd: "snd (predictNext p) = p"
  by (simp add: predictNext_def Let_def split: option.splits)

lemma scoreResources_snd: "snd (scoreResources ps now p) = p"
  by (simp add: scoreResources_def Let_def)

text \<open>
  C9. \<open>predictNext\<close> and \<open>scoreResources\<close> return the instance as they found it: the
  transition table, the resource registry and the current state are unchanged.
\<close>

theorem readers_do_not_mutate:
  "snd (predictNext p) = p \<and> snd (scoreResources predictions now p) = p \<and>
   transitions (snd (predictNext p)) = transitions p \<and>
   resources (snd (predictNext p)) = resources p \<and>
   currentState (snd (predictNext p)) = currentState p \<and>
   transitions (snd (scoreResources predictions now p)) = transitions p \<and>
   resources (snd (scoreResources predictions now p)) = resources p \<and>
   currentState (snd (scoreResources predictions now p)) = currentState p"
  by (simp add: predictNext_snd scoreResources_snd)

subsection \<open>\<open>track\<close>\<close>

text \<open>
  C4. Tracking the state that is already current changes nothing: the transition table
  is the same (no self-loop edge) and the current state is still \<open>s\<close>.
\<close>

theorem track_current_state_no_self_loop:
  assumes "currentState p = Some s"
  shows "transitions (track eventType s p) = transitions p \<and>
         currentState (track eventType s p) = Some s \<and>
         track eventType s p = p"
  using assms by (simp add: track_def)

theorem track_current_state_no_self_loop_witness:
  "currentState (track ''pageview'' ''/home'' (new no_options)) = Some ''/home'' \<and>
   transitions (track ''click'' ''/home'' (track ''pageview'' ''/home'' (new no_options)))
     = transitions (track ''pageview'' ''/home'' (new no_options)) \<and>
   currentState (track ''click'' ''/home'' (track ''pageview'' ''/home'' (new no_options)))
     = Some ''/home''"
proof -
  have h: "currentState (track ''pageview'' ''/home'' (new no_options)) = Some ''/home''"
    by (simp add: track_def new_def)
  show ?thesis
    using h track_current_state_no_self_loop [OF h, of "''click''"] by simp
qed

text \<open>
  C10. The empty string counts as no current state: with \<open>""\<close> current, \<open>track\<close> records
  no edge and only reassigns the current state, and \<open>predictNext\<close> returns the empty
  list whatever the transition table holds under \<open>""\<close>.
\<close>

theorem empty_string_is_no_state:
  assumes "currentState p = Some []"
  shows "transitions (track eventType s p) = transitions p \<and>
         track eventType s p = p\<lparr> currentState := Some s \<rparr> \<and>
         fst (predictNext p) = []"
  using assms by (simp add: track_def predictNext_def)

theorem empty_string_is_no_state_witness:
  "currentState (track ''pageview'' [] (new no_options)) = Some [] \<and>
   transitions (track ''pageview'' ''/home'' (track ''pageview'' [] (new no_options))) = [] \<and>
   currentState (track ''pageview'' ''/home'' (track ''pageview'' [] (new no_options)))
     = Some ''/home'' \<and>
   fst (predictNext (track ''pageview'' [] (new no_options))) = []"
proof -
  have h: "currentState (track ''pageview'' [] (new no_options)) = Some []"
    by (simp add: track_def new_def)
  have t: "transitions (track ''pageview'' [] (new no_options)) = []"
    by (simp add: track_def new_def)
  show ?thesis
    using h t empty_string_is_no_state [OF h, of "''pageview''" "''/home''"] by simp
qed

subsection \<open>\<open>optimize\<close> with nothing to do\<close>

lemma predictNext_pair: "predictNext p = (fst (predictNext p), p)"
  using predictNext_snd [of p] by (cases "predictNext p") simp

lemma scoreResources_pair: "scoreResources ps now p = (fst (scoreResources ps now p), p)"
  using scoreResources_snd [of ps now p] by (cases "scoreResources ps now p") simp

text \<open>
  C6. When \<open>predictNext\<close> returns no prediction, or \<open>scoreResources\<close> returns no
  candidate for the predictions, \<open>optimize\<close> resolves, passes no URL to \<open>fetch\<close>, and
  returns the instance as it was.
\<close>

theorem optimize_without_candidates:
  assumes "fst (predictNext p) = [] \<or>
           fst (scoreResources (fst (predictNext p)) now p) = []"
  shows "optimize now sched p = (Fulfilled, [], p)"
proof -
  obtain ps where ps: "predictNext p = (ps, p)"
    using predictNext_pair by blast
  obtain ss where ss: "scoreResources ps now p = (ss, p)"
    using scoreResources_pair by blast
  from assms ps ss have "ps = [] \<or> ss = []"
    by simp
  then show ?thesis
    by (auto simp add: optimize_def ps ss)
qed

theorem optimize_without_candidates_witness:
  "fst (predictNext (run [Track ''pageview'' ''/a'', Track ''pageview'' ''/b'',
                          Track ''pageview'' ''/a''] (new no_options)))
     = [\<lparr> state = ''/b'', probability = 1 \<rparr>] \<and>
   fst (scoreResources [\<lparr> state = ''/b'', probability = 1 \<rparr>] 5
         (run [Track ''pageview'' ''/a'', Track ''pageview'' ''/b'',
               Track ''pageview'' ''/a''] (new no_options))) = [] \<and>
   optimize 5 [\<lparr> ev_index = 0, ev_result = Succeeded, ev_now = 6 \<rparr>]
     (run [Track ''pageview'' ''/a'', Track ''pageview'' ''/b'',
           Track ''pageview'' ''/a''] (new no_options))
     = (Fulfilled, [],
        run [Track ''pageview'' ''/a'', Track ''pageview'' ''/b'',
             Track ''pageview'' ''/a''] (new no_options))"
proof -
  let ?p = "run [Track ''pageview'' ''/a'', Track ''pageview'' ''/b'',
                 Track ''pageview'' ''/a''] (new no_options)"
  have p: "?p = \<lparr> maxPrefetch = 3, decayRate = Num (1 / 10),
                  transitions = [(''/a'', [(''/b'', 1)]), (''/b'', [(''/a'', 1)])],
                  resources = [], currentState = Some ''/a'' \<rparr>"
    by (simp add: run_def track_def new_def no_options_def js_or_def js_or_opt_def js_incr_def)
  have pn: "fst (predictNext ?p) = [\<lparr> state = ''/b'', probability = 1 \<rparr>]"
    by (simp add: p predictNext_def array_sort_def)
  have sr: "fst (scoreResources (fst (predictNext ?p)) 5 ?p) = []"
    by (simp add: pn) (simp add: p scoreResources_def array_sort_def)
  show ?thesis
    using pn sr
      optimize_without_candidates
        [of ?p 5 "[\<lparr> ev_index = 0, ev_result = Succeeded, ev_now = 6 \<rparr>]"]
    by simp
qed

subsection \<open>\<open>prefetch\<close>: how many fetches\<close>

lemma prefetch_dispatched:
  "fst (snd (prefetch urls sched p)) = map url (slice0 (maxPrefetch p) urls)"
  by (simp add: prefetch_def Let_def split: prod.splits)

lemma slice0_length_le: "0 < m \<Longrightarrow> real (length (slice0 m xs)) \<le> m"
  by (auto simp add: slice0_def to_integer_def Let_def min_def) linarith+

text \<open>
  For a positive \<open>maxPrefetch\<close> option the bound holds: the option is stored as it is
  and \<open>slice\<close> keeps at most that many candidates.
\<close>

lemma settle_frame:
  "transitions (snd (settle us es ps p)) = transitions p \<and>
   currentState (snd (settle us es ps p)) = currentState p \<and>
   maxPrefetch (snd (settle us es ps p)) = maxPrefetch p \<and>
   decayRate (snd (settle us es ps p)) = decayRate p"
  by (induction us es ps p rule: settle.induct)
     (auto simp add: chain_def on_fulfilled_def on_rejected_def
           split: prod.splits fetch_result.splits option.splits promise.splits)

lemma prefetch_frame:
  "transitions (snd (snd (prefetch cs sched p))) = transitions p \<and>
   currentState (snd (snd (prefetch cs sched p))) = currentState p \<and>
   maxPrefetch (snd (snd (prefetch cs sched p))) = maxPrefetch p \<and>
   decayRate (snd (snd (prefetch cs sched p))) = decayRate p"
  using settle_frame [of "map url (slice0 (maxPrefetch p) cs)" sched
      "replicate (length (slice0 (maxPrefetch p) cs)) Pending" p]
  by (simp add: prefetch_def Let_def split_beta)

lemma optimize_unfold:
  "optimize now sched p =
     (if fst (predictNext p) = [] then (Fulfilled, [], p)
      else if fst (scoreResources (fst (predictNext p)) now p) = [] then (Fulfilled, [], p)
      else prefetch (fst (scoreResources (fst (predictNext p)) now p)) sched p)"
  by (simp add: optimize_def split_beta predictNext_snd scoreResources_snd)

lemma optimize_frame:
  "transitions (snd (snd (optimize now sched p))) = transitions p \<and>
   currentState (snd (snd (optimize now sched p))) = currentState p \<and>
   maxPrefetch (snd (snd (optimize now sched p))) = maxPrefetch p \<and>
   decayRate (snd (snd (optimize now sched p))) = decayRate p"
  by (simp add: optimize_unfold prefetch_frame)

lemma exec_maxPrefetch: "maxPrefetch (exec x p) = maxPrefetch p"
  by (cases x) (simp_all add: track_def addResource_def Let_def optimize_frame split: option.splits)

lemma run_maxPrefetch: "maxPrefetch (run ops p) = maxPrefetch p"
  unfolding run_def by (induction ops arbitrary: p) (simp_all add: exec_maxPrefetch)

text \<open>
  For a positive \<open>maxPrefetch\<close> option the bound holds: the option is stored as it is,
  no public operation changes it, and \<open>slice\<close> keeps at most that many candidates.
\<close>

lemma prefetch_bound_positive_option:
  assumes "opt_maxPrefetch opts = Some m" and "0 < m"
  shows "real (length (fst (snd (prefetch urls sched (run ops (new opts)))))) \<le> m"
proof -
  have "maxPrefetch (run ops (new opts)) = m"
    using assms by (simp add: run_maxPrefetch new_def js_or_def)
  then show ?thesis
    using slice0_length_le [OF assms(2)] by (simp add: prefetch_dispatched)
qed

text \<open>
  C1. The claim is that a prefetcher constructed with \<open>maxPrefetch = m \<ge> 0\<close> dispatches
  at most \<open>m\<close> fetches, none for \<open>m = 0\<close>. The constructor reads the option with
  \<open>options.maxPrefetch || 3\<close>, so the option \<open>0\<close> is replaced by \<open>3\<close>: with four ranked
  candidates, the instance constructed with \<open>maxPrefetch: 0\<close> passes three URLs to
  \<open>fetch\<close>.
\<close>

theorem prefetch_maxPrefetch_zero_dispatches_three:
  "maxPrefetch (new \<lparr> opt_maxPrefetch = Some 0, opt_decayRate = None \<rparr>) = 3 \<and>
   fst (snd (prefetch
     [\<lparr> url = ''/a'', score = Num 4 \<rparr>, \<lparr> url = ''/b'', score = Num 3 \<rparr>,
      \<lparr> url = ''/c'', score = Num 2 \<rparr>, \<lparr> url = ''/d'', score = Num 1 \<rparr>]
     []
     (new \<lparr> opt_maxPrefetch = Some 0, opt_decayRate = None \<rparr>)))
   = [''/a'', ''/b'', ''/c'']"
  by (simp add: prefetch_def Let_def new_def js_or_def slice0_def to_integer_def)

subsection \<open>The invariant of the transition table\<close>

lemma map_set_nonempty: "map_set k v m \<noteq> []"
  by (cases m) auto

lemma table_ok_track: 
  assumes "table_ok (transitions p)"
  shows "table_ok (transitions (track e st p))"
proof (cases "currentState p")
  case None
  with assms show ?thesis by (simp add: track_def)
next
  case (Some cur)
  show ?thesis
  proof (cases "cur \<noteq> [] \<and> cur \<noteq> st")
    case False
    with Some assms show ?thesis by (auto simp add: track_def)
  next
    case True
    define nextMap where "nextMap = (case map_of (transitions p) cur of None \<Rightarrow> [] | Some m \<Rightarrow> m)"
    define count where "count = (case map_of nextMap st of None \<Rightarrow> 0 | Some c \<Rightarrow> c)"
    define nextMap1 where "nextMap1 = map_set st (js_incr count) nextMap"
    have tr: "transitions (track e st p) = map_set cur nextMap1 (transitions p)"
      using Some True by (simp add: track_def nextMap_def count_def nextMap1_def Let_def)
    have old: "distinct (map fst nextMap) \<and> (\<forall>(d, c) \<in> set nextMap. 1 \<le> c)"
    proof (cases "map_of (transitions p) cur")
      case None
      then show ?thesis by (simp add: nextMap_def)
    next
      case (Some m)
      then have "(cur, m) \<in> set (transitions p)" by (rule map_of_SomeD)
      with assms Some show ?thesis by (auto simp add: nextMap_def table_ok_def)
    qed
    have new: "nextMap1 \<noteq> [] \<and> distinct (map fst nextMap1) \<and> (\<forall>(d, c) \<in> set nextMap1. 1 \<le> c)"
      using old set_map_set [of st "js_incr count" nextMap] js_incr_pos [of count]
      by (auto simp add: nextMap1_def map_set_nonempty distinct_map_set)
    have "e = (cur, nextMap1) \<or> e \<in> set (transitions p)"
      if "e \<in> set (transitions (track e' st p))" for e e'
      using that set_map_set [of cur nextMap1 "transitions p"] Some True
      by (auto simp add: track_def nextMap_def count_def nextMap1_def Let_def)
    then show ?thesis
      using assms new True unfolding table_ok_def by fastforce
  qed
qed

lemma table_ok_exec: "table_ok (transitions p) \<Longrightarrow> table_ok (transitions (exec x p))"
  by (cases x) (simp_all add: table_ok_track addResource_def Let_def optimize_frame)

lemma table_ok_run: "table_ok (transitions p) \<Longrightarrow> table_ok (transitions (run ops p))"
  unfolding run_def by (induction ops arbitrary: p) (simp_all add: table_ok_exec)

lemma table_ok_reachable: "table_ok (transitions (run ops (new opts)))"
  by (rule table_ok_run) (simp add: new_def table_ok_def)

text \<open>
  C5. After any sequence of \<open>track\<close>, \<open>addResource\<close> and \<open>optimize\<close> on a new instance,
  every count stored in the transition table is at least 1.
\<close>

theorem stored_counts_positive:
  assumes "(s, nextMap) \<in> set (transitions (run ops (new opts)))" and "(d, c) \<in> set nextMap"
  shows "1 \<le> c"
  using assms table_ok_reachable [of ops opts] by (auto simp add: table_ok_def)

subsection \<open>\<open>predictNext\<close>\<close>

lemma mset_insert_by: "mset (insert_by cmp x ys) = add_mset x (mset ys)"
  by (induction ys) auto

lemma mset_array_sort: "mset (array_sort cmp xs) = mset xs"
  unfolding array_sort_def by (induction xs) (simp_all add: mset_insert_by)

lemma set_insert_by: "set (insert_by cmp x ys) = insert x (set ys)"
  by (induction ys) auto

lemma foldl_plus_sum_list: "foldl (+) a xs = a + sum_list (xs :: nat list)"
  by (induction xs arbitrary: a) simp_all

lemma predictNext_has:
  assumes "currentState p = Some s" and "s \<noteq> []" and "map_of (transitions p) s = Some nextMap"
  shows "fst (predictNext p) =
           array_sort by_probability_desc
             (map (\<lambda>(d, c). \<lparr> state = d, probability = real c / real (sum_list (map snd nextMap)) \<rparr>) nextMap)"
  using assms by (simp add: predictNext_def Let_def foldl_plus_sum_list)

lemma total_positive:
  assumes "m \<noteq> []" and "\<forall>(d, c) \<in> set m. 1 \<le> (c :: nat)"
  shows "0 < sum_list (map snd m)"
  using assms by (cases m) auto

lemma insert_by_sorted:
  assumes "sorted_wrt (\<lambda>a b. probability b \<le> probability a) ys"
  shows "sorted_wrt (\<lambda>a b. probability b \<le> probability a) (insert_by by_probability_desc x ys)"
  using assms
proof (induction ys)
  case Nil
  then show ?case by simp
next
  case (Cons y ys)
  then show ?case
    by (auto simp add: set_insert_by) (auto simp add: by_probability_desc_def)
qed

lemma array_sort_sorted:
  "sorted_wrt (\<lambda>a b. probability b \<le> probability a) (array_sort by_probability_desc xs)"
  unfolding array_sort_def by (induction xs) (simp_all add: insert_by_sorted)


lemma scenario_state:
  "run scenario (new no_options) =
     \<lparr> maxPrefetch = 3, decayRate = Num (1 / 10),
       transitions = [(''/home'', [(''/products'', 3), (''/about'', 1)]),
                      (''/products'', [(''/home'', 3)]),
                      (''/about'', [(''/home'', 1)])],
       resources = [], currentState = Some ''/home'' \<rparr>"
  by (simp add: scenario_def run_def track_def new_def no_options_def js_or_def js_or_opt_def js_incr_def)

lemma scenario_predictions:
  "fst (predictNext (run scenario (new no_options))) =
     [\<lparr> state = ''/products'', probability = 3 / 4 \<rparr>,
      \<lparr> state = ''/about'', probability = 1 / 4 \<rparr>]"
  by (simp add: scenario_state predictNext_def array_sort_def by_probability_desc_def)

theorem stored_counts_positive_witness:
  "(''/home'', [(''/products'', 3), (''/about'', 1)])
      \<in> set (transitions (run scenario (new no_options))) \<and>
   (''/about'', 1) \<in> set [(''/products'', 3 :: nat), (''/about'', 1)] \<and> (1 :: nat) \<le> 1"
  using stored_counts_positive
    [of "''/home''" "[(''/products'', 3), (''/about'', 1)]" scenario no_options "''/about''" 1]
  by (simp add: scenario_state)

text \<open>
  C7. In such a state \<open>predictNext\<close> returns exactly the predictions
  \<open>(d, count / total)\<close> of the entries \<open>(d, count)\<close> of the current state's inner map, one
  for each destination, \<open>total\<close> being the positive sum of the counts, and in descending
  order of probability.
\<close>

theorem predictNext_ranked_distribution:
  assumes "currentState (run ops (new opts)) = Some s"
    and "map_of (transitions (run ops (new opts))) s = Some nextMap"
  shows "mset (fst (predictNext (run ops (new opts)))) =
           mset (map (\<lambda>(d, c). \<lparr> state = d,
                                  probability = real c / real (sum_list (map snd nextMap)) \<rparr>)
                     nextMap) \<and>
         mset (map state (fst (predictNext (run ops (new opts))))) = mset (map fst nextMap) \<and>
         distinct (map state (fst (predictNext (run ops (new opts))))) \<and>
         0 < sum_list (map snd nextMap) \<and>
         sorted_wrt (\<lambda>a b. probability b \<le> probability a)
           (fst (predictNext (run ops (new opts))))"
proof -
  let ?p = "run ops (new opts)"
  let ?f = "\<lambda>(d, c). \<lparr> state = d, probability = real c / real (sum_list (map snd nextMap)) \<rparr>"
  have "(s, nextMap) \<in> set (transitions ?p)"
    using assms(2) by (rule map_of_SomeD)
  then have ok: "s \<noteq> []" "nextMap \<noteq> []" "\<forall>(d, c) \<in> set nextMap. 1 \<le> c"
      "distinct (map fst nextMap)"
    using table_ok_reachable [of ops opts] by (auto simp add: table_ok_def)
  have eq: "fst (predictNext ?p) = array_sort by_probability_desc (map ?f nextMap)"
    by (rule predictNext_has [OF assms(1) ok(1) assms(2)])
  have m: "mset (fst (predictNext ?p)) = mset (map ?f nextMap)"
    by (simp only: eq mset_array_sort)
  have "mset (map state (fst (predictNext ?p))) = mset (map state (map ?f nextMap))"
    by (simp only: mset_map m)
  also have "map state (map ?f nextMap) = map fst nextMap"
    by (simp add: split_beta)
  finally have st: "mset (map state (fst (predictNext ?p))) = mset (map fst nextMap)" .
  have d: "distinct (map state (fst (predictNext ?p)))"
    using st ok(4) by (metis mset_eq_imp_distinct_iff)
  have pos: "0 < sum_list (map snd nextMap)"
    using ok(2,3) by (rule total_positive)
  have srt: "sorted_wrt (\<lambda>a b. probability b \<le> probability a) (fst (predictNext ?p))"
    by (simp only: eq array_sort_sorted)
  from m st d pos srt show ?thesis
    by blast
qed

theorem predictNext_ranked_distribution_witness:
  "currentState (run scenario (new no_options)) = Some ''/home'' \<and>
   map_of (transitions (run scenario (new no_options))) ''/home''
     = Some [(''/products'', 3), (''/about'', 1)] \<and>
   fst (predictNext (run scenario (new no_options))) =
     [\<lparr> state = ''/products'', probability = 3 / 4 \<rparr>,
      \<lparr> state = ''/about'', probability = 1 / 4 \<rparr>] \<and>
   mset (map state (fst (predictNext (run scenario (new no_options)))))
     = mset [''/products'', ''/about''] \<and>
   sorted_wrt (\<lambda>a b. probability b \<le> probability a)
     (fst (predictNext (run scenario (new no_options))))"
  using predictNext_ranked_distribution
    [of scenario no_options "''/home''" "[(''/products'', 3), (''/about'', 1)]"]
    scenario_predictions
  by (simp add: scenario_state)

subsection \<open>\<open>prefetch\<close>: failures and successes in a batch\<close>

lemma chain_fulfilled: "fst (chain u r now p) = Fulfilled"
  by (simp add: chain_def on_fulfilled_def on_rejected_def split: fetch_result.splits option.splits)

lemma chain_registry:
  "map_of (resources (snd (chain u r now p))) v =
     (if r = Succeeded \<and> u = v
      then map_option (\<lambda>res. res\<lparr> lastUsed := now \<rparr>) (map_of (resources p) v)
      else map_of (resources p) v)"
  by (simp add: chain_def on_fulfilled_def on_rejected_def map_of_map_set
        split: fetch_result.splits option.splits)

lemma settle_promises:
  assumes "length ps = length us" and "set ps \<subseteq> {Fulfilled, Pending}"
  shows "length (fst (settle us es ps p)) = length us \<and>
         set (fst (settle us es ps p)) \<subseteq> {Fulfilled, Pending} \<and>
         (\<forall>i < length us. ps ! i = Fulfilled \<or> i \<in> ev_index ` set es
            \<longrightarrow> fst (settle us es ps p) ! i = Fulfilled)"
  using assms
proof (induction es arbitrary: ps p)
  case Nil
  then show ?case by simp
next
  case (Cons e es)
  show ?case
  proof (cases "ev_index e < length us \<and> ps ! ev_index e = Pending")
    case True
    obtain p1 where c: "chain (us ! ev_index e) (ev_result e) (ev_now e) p = (Fulfilled, p1)"
      using chain_fulfilled [of "us ! ev_index e" "ev_result e" "ev_now e" p]
      by (cases "chain (us ! ev_index e) (ev_result e) (ev_now e) p") simp
    let ?ps = "ps[ev_index e := Fulfilled]"
    have s: "settle us (e # es) ps p = settle us es ?ps p1"
      using True c by simp
    have l: "length ?ps = length us"
      using Cons.prems(1) by simp
    have f: "set ?ps \<subseteq> {Fulfilled, Pending}"
      using Cons.prems(2) set_update_subset_insert [of ps "ev_index e" Fulfilled] by auto
    have "?ps ! i = Fulfilled" if "i < length us" "ps ! i = Fulfilled \<or> i = ev_index e" for i
      using that Cons.prems(1) by (cases "i = ev_index e") auto
    with Cons.IH [OF l f, of p1] show ?thesis
      unfolding s by auto
  next
    case False
    then have s: "settle us (e # es) ps p = settle us es ps p"
      by auto
    have "ps ! i = Fulfilled" if "i < length us" "i = ev_index e" for i
    proof -
      have "ps ! i \<in> set ps" using that Cons.prems(1) by simp
      with False that Cons.prems(2) show ?thesis by auto
    qed
    with Cons.IH [OF Cons.prems, of p] show ?thesis
      unfolding s by auto
  qed
qed

lemma settle_registry:
  assumes "distinct (map ev_index es)"
    and "\<forall>e \<in> set es. ev_index e < length us \<longrightarrow> ps ! ev_index e = Pending"
    and "length ps = length us"
  shows "map_of (resources (snd (settle us es ps p))) u =
           (case last_success us es u of
              None \<Rightarrow> map_of (resources p) u
            | Some t \<Rightarrow> map_option (\<lambda>res. res\<lparr> lastUsed := t \<rparr>) (map_of (resources p) u))"
  using assms
proof (induction es arbitrary: ps p)
  case Nil
  then show ?case by simp
next
  case (Cons e es)
  show ?case
  proof (cases "ev_index e < length us")
    case True
    then have pend: "ps ! ev_index e = Pending"
      using Cons.prems(2) by simp
    obtain r p1 where c: "chain (us ! ev_index e) (ev_result e) (ev_now e) p = (r, p1)"
      by (cases "chain (us ! ev_index e) (ev_result e) (ev_now e) p")
    let ?ps = "ps[ev_index e := r]"
    have s: "settle us (e # es) ps p = settle us es ?ps p1"
      using True pend c by simp
    have d: "distinct (map ev_index es)"
      using Cons.prems(1) by simp
    have q: "\<forall>e' \<in> set es. ev_index e' < length us \<longrightarrow> ?ps ! ev_index e' = Pending"
    proof (intro ballI impI)
      fix e' assume e': "e' \<in> set es" "ev_index e' < length us"
      have "ev_index e \<notin> ev_index ` set es"
        using Cons.prems(1) by simp
      with e'(1) have "ev_index e' \<noteq> ev_index e"
        by (metis imageI)
      then show "?ps ! ev_index e' = Pending"
        using Cons.prems(2) e' by simp
    qed
    have l: "length ?ps = length us"
      using Cons.prems(3) by simp
    have p1: "map_of (resources p1) u =
        (if ev_result e = Succeeded \<and> us ! ev_index e = u
         then map_option (\<lambda>res. res\<lparr> lastUsed := ev_now e \<rparr>) (map_of (resources p) u)
         else map_of (resources p) u)"
      using chain_registry [of "us ! ev_index e" "ev_result e" "ev_now e" p u] c by simp
    show ?thesis
      unfolding s using Cons.IH [OF d q l, of p1] True p1
      by (cases "map_of (resources p) u") (auto split: option.splits)
  next
    case False
    then have s: "settle us (e # es) ps p = settle us es ps p"
      by auto
    have d: "distinct (map ev_index es)"
      using Cons.prems(1) by simp
    have q: "\<forall>e' \<in> set es. ev_index e' < length us \<longrightarrow> ps ! ev_index e' = Pending"
      using Cons.prems(2) by simp
    show ?thesis
      unfolding s using Cons.IH [OF d q Cons.prems(3), of p] False
      by (auto split: option.splits)
  qed
qed

lemma last_success_None:
  "last_success us es u = None \<longleftrightarrow>
     (\<forall>e \<in> set es. ev_index e < length us \<and> us ! ev_index e = u \<longrightarrow> ev_result e = Failed)"
proof (induction es)
  case Nil
  then show ?case by simp
next
  case (Cons e es)
  have "ev_result e = Failed \<longleftrightarrow> ev_result e \<noteq> Succeeded"
    by (cases "ev_result e") simp_all
  with Cons show ?case
    by (cases "last_success us es u") auto
qed

lemma last_success_Some:
  "last_success us es u = Some t \<Longrightarrow>
     \<exists>e \<in> set es. ev_index e < length us \<and> us ! ev_index e = u \<and>
                  ev_result e = Succeeded \<and> ev_now e = t"
  by (induction es) (auto split: option.splits if_splits)


text \<open>
  C8. Let every dispatched fetch settle at most once. Then the promise of \<open>prefetch\<close> is
  never rejected, and it is fulfilled once every fetch of the batch has settled,
  failed or not. The registry entry of a URL \<open>u\<close> depends on the successful fetches
  alone: it carries the clock of the last successful fetch of \<open>u\<close> in the batch whatever
  the other fetches did, and it is unchanged when every fetch of \<open>u\<close> in the batch
  failed.
\<close>

theorem prefetch_isolates_failures:
  assumes "distinct (map ev_index sched)"
  shows "fst (prefetch urls sched p) \<noteq> Rejected \<and>
         ((\<forall>i < length (fst (snd (prefetch urls sched p))). i \<in> ev_index ` set sched)
            \<longrightarrow> fst (prefetch urls sched p) = Fulfilled) \<and>
         map_of (resources (snd (snd (prefetch urls sched p)))) u =
           (case last_success (fst (snd (prefetch urls sched p))) sched u of
              None \<Rightarrow> map_of (resources p) u
            | Some t \<Rightarrow> map_option (\<lambda>res. res\<lparr> lastUsed := t \<rparr>) (map_of (resources p) u)) \<and>
         ((\<forall>e \<in> set sched.
              ev_index e < length (fst (snd (prefetch urls sched p))) \<and>
              fst (snd (prefetch urls sched p)) ! ev_index e = u
              \<longrightarrow> ev_result e = Failed)
            \<longrightarrow> map_of (resources (snd (snd (prefetch urls sched p)))) u = map_of (resources p) u)"
proof -
  define us where "us = map url (slice0 (maxPrefetch p) urls)"
  define st where "st = settle us sched (replicate (length us) Pending) p"
  have pf: "prefetch urls sched p = (promise_all (fst st), us, snd st)"
    by (simp add: prefetch_def Let_def split_beta st_def us_def)
  have pr: "length (fst st) = length us \<and> set (fst st) \<subseteq> {Fulfilled, Pending} \<and>
            (\<forall>i < length us. replicate (length us) Pending ! i = Fulfilled \<or>
                              i \<in> ev_index ` set sched \<longrightarrow> fst st ! i = Fulfilled)"
    unfolding st_def by (rule settle_promises) auto
  have a: "promise_all (fst st) \<noteq> Rejected"
    using pr by (auto simp add: promise_all_def)
  have b: "promise_all (fst st) = Fulfilled"
    if all: "\<forall>i < length us. i \<in> ev_index ` set sched"
  proof -
    have "x = Fulfilled" if "x \<in> set (fst st)" for x
    proof -
      from that obtain i where i: "i < length (fst st)" "fst st ! i = x"
        unfolding in_set_conv_nth by blast
      from i(1) pr have "i < length us"
        by simp
      with all pr have "fst st ! i = Fulfilled"
        by blast
      with i(2) show ?thesis
        by simp
    qed
    then show ?thesis
      unfolding promise_all_def by auto
  qed
  have c: "map_of (resources (snd st)) u =
           (case last_success us sched u of
              None \<Rightarrow> map_of (resources p) u
            | Some t \<Rightarrow> map_option (\<lambda>res. res\<lparr> lastUsed := t \<rparr>) (map_of (resources p) u))"
    unfolding st_def by (rule settle_registry [OF assms]) auto
  have d: "map_of (resources (snd st)) u = map_of (resources p) u"
    if "\<forall>e \<in> set sched. ev_index e < length us \<and> us ! ev_index e = u
          \<longrightarrow> ev_result e = Failed"
  proof -
    from that have "last_success us sched u = None"
      by (simp only: last_success_None)
    with c show ?thesis
      by simp
  qed
  show ?thesis
    unfolding pf fst_conv snd_conv using a b c d by blast
qed


lemma two_resources_state:
  "two_resources =
     \<lparr> maxPrefetch = 3, decayRate = Num (1 / 10), transitions = [],
       resources = [(''/api/a'', \<lparr> size_res = Num 100, latency = Num 100, lastUsed = 0 \<rparr>),
                    (''/api/b'', \<lparr> size_res = Num 100, latency = Num 100, lastUsed = 0 \<rparr>)],
       currentState = None \<rparr>"
  by (simp add: two_resources_def run_def addResource_def new_def no_options_def
        js_or_def js_or_opt_def js_default_def)

lemma batch_ab_result:
  "prefetch batch_ab b_succeeds_a_fails two_resources =
     (Fulfilled, [''/api/a'', ''/api/b''],
      \<lparr> maxPrefetch = 3, decayRate = Num (1 / 10), transitions = [],
        resources = [(''/api/a'', \<lparr> size_res = Num 100, latency = Num 100, lastUsed = 0 \<rparr>),
                     (''/api/b'', \<lparr> size_res = Num 100, latency = Num 100, lastUsed = 20 \<rparr>)],
        currentState = None \<rparr>)"
  by (simp add: two_resources_state batch_ab_def b_succeeds_a_fails_def prefetch_def Let_def
        slice0_def to_integer_def chain_def on_fulfilled_def on_rejected_def promise_all_def)

theorem prefetch_isolates_failures_witness:
  "distinct (map ev_index b_succeeds_a_fails) \<and>
   fst (prefetch batch_ab b_succeeds_a_fails two_resources) = Fulfilled \<and>
   map_of (resources (snd (snd (prefetch batch_ab b_succeeds_a_fails two_resources)))) ''/api/a''
     = map_of (resources two_resources) ''/api/a'' \<and>
   map_of (resources (snd (snd (prefetch batch_ab b_succeeds_a_fails two_resources)))) ''/api/b''
     = Some \<lparr> size_res = Num 100, latency = Num 100, lastUsed = 20 \<rparr>"
proof -
  have h: "distinct (map ev_index b_succeeds_a_fails)"
    by (simp add: b_succeeds_a_fails_def)
  have us: "fst (snd (prefetch batch_ab b_succeeds_a_fails two_resources)) = [''/api/a'', ''/api/b'']"
    by (simp add: batch_ab_result)
  have all: "\<forall>i < length [''/api/a'', ''/api/b'']. i \<in> ev_index ` set b_succeeds_a_fails"
    by (simp add: b_succeeds_a_fails_def less_Suc_eq)
  have fa: "\<forall>e \<in> set b_succeeds_a_fails.
              ev_index e < length [''/api/a'', ''/api/b''] \<and>
              [''/api/a'', ''/api/b''] ! ev_index e = ''/api/a'' \<longrightarrow> ev_result e = Failed"
    by (simp add: b_succeeds_a_fails_def)
  have lb: "last_success [''/api/a'', ''/api/b''] b_succeeds_a_fails ''/api/b'' = Some 20"
    by (simp add: b_succeeds_a_fails_def)
  have rb: "map_of (resources two_resources) ''/api/b''
              = Some \<lparr> size_res = Num 100, latency = Num 100, lastUsed = 0 \<rparr>"
    by (simp add: two_resources_state)
  from prefetch_isolates_failures [OF h, of batch_ab two_resources "''/api/a''"] all fa
  have a: "fst (prefetch batch_ab b_succeeds_a_fails two_resources) = Fulfilled \<and>
           map_of (resources (snd (snd (prefetch batch_ab b_succeeds_a_fails two_resources)))) ''/api/a''
             = map_of (resources two_resources) ''/api/a''"
    unfolding us by blast
  from prefetch_isolates_failures [OF h, of batch_ab two_resources "''/api/b''"] lb rb
  have b: "map_of (resources (snd (snd (prefetch batch_ab b_succeeds_a_fails two_resources)))) ''/api/b''
             = Some \<lparr> size_res = Num 100, latency = Num 100, lastUsed = 20 \<rparr>"
    unfolding us by simp
  from h a b show ?thesis
    by blast
qed

subsection \<open>\<open>scoreResources\<close>: the range of the scores\<close>

lemma threshold_pos: "(0::real) < 2 ^ 1024 - 2 ^ 970"
  by simp

lemma fl_nonneg:
  assumes "0 \<le> x"
  shows "fl x = PosInf \<and> 2 ^ 1024 - 2 ^ 970 \<le> x \<or>
         (\<exists>y. fl x = Num y \<and> 0 \<le> y \<and> y \<le> x \<and> x < 2 ^ 1024 - 2 ^ 970)"
proof (cases "\<bar>x\<bar> \<le> 1 / 2 ^ 1075")
  case True
  have "(1::real) / 2 ^ 1075 < 2 ^ 1024 - 2 ^ 970"
    by simp
  with True assms show ?thesis
    by (simp add: fl_def)
next
  case False
  with assms threshold_pos show ?thesis
    by (simp add: fl_def fl_sum_def)
qed

lemma fl_unit:
  assumes "0 \<le> x" and "x \<le> 1"
  shows "\<exists>y. fl x = Num y \<and> 0 \<le> y \<and> y \<le> 1"
proof -
  have "(1::real) < 2 ^ 1024 - 2 ^ 970"
    by simp
  with assms fl_nonneg [OF assms(1)] show ?thesis
    by auto
qed

lemma fl_nonpos:
  assumes "x \<le> 0"
  shows "fl x = NegInf \<or> (\<exists>y. fl x = Num y \<and> y \<le> 0)"
  using assms threshold_pos by (simp add: fl_def fl_sum_def)

lemma not_negative_fl: "0 \<le> x \<Longrightarrow> not_negative (fl x)"
  using fl_nonneg [of x] unfolding not_negative_def by blast

lemma not_negative_exp: "not_negative (js_exp v)"
proof (cases v)
  case (Num a)
  then show ?thesis
    using not_negative_fl [of "exp a"] by simp
qed (simp_all add: not_negative_def)

lemma not_negative_mul:
  assumes "0 \<le> prob" and "not_negative d"
  shows "not_negative (js_mul (Num prob) d)"
proof (cases d)
  case (Num a)
  with assms(2) have "0 \<le> a"
    by (simp add: not_negative_def)
  with assms(1) Num show ?thesis
    using not_negative_fl [of "prob * a"] by simp
next
  case PosInf
  with assms(1) show ?thesis
    by (simp add: not_negative_def)
next
  case NegInf
  with assms(2) show ?thesis
    by (simp add: not_negative_def)
next
  case NaN
  then show ?thesis
    by (simp add: not_negative_def)
qed

lemma cost_of_cases:
  assumes "js_nonneg (size_res r)" and "js_nonneg (latency r)"
  shows "cost_of r = Num 0 \<or> cost_of r = NaN \<or> cost_of r = PosInf \<or>
         (\<exists>c. cost_of r = Num c \<and> 1 / 2 ^ 1075 < c)"
proof (cases "size_res r")
  case a: (Num a)
  show ?thesis
  proof (cases "latency r")
    case (Num b)
    with a assms have "0 \<le> a * b"
      by simp
    then show ?thesis
      using a Num threshold_pos by (simp add: cost_of_def fl_def fl_sum_def)
  qed (use a assms in \<open>auto simp add: cost_of_def\<close>)
next
  case PosInf
  with assms show ?thesis
    by (cases "latency r") (auto simp add: cost_of_def)
qed (use assms in simp_all)

lemma divisor_of_cases:
  assumes "js_nonneg (size_res r)" and "js_nonneg (latency r)"
  shows "divisor_of r = PosInf \<and> cost_of r = PosInf \<or>
         divisor_of r = Num 1 \<and> (cost_of r = Num 0 \<or> cost_of r = NaN) \<or>
         (\<exists>c. divisor_of r = Num c \<and> cost_of r = Num c \<and> 1 / 2 ^ 1075 < c)"
proof -
  have "(0::real) < 1 / 2 ^ 1075"
    by simp
  then have "c \<noteq> 0" if "1 / 2 ^ 1075 < c" for c :: real
    using that by linarith
  with cost_of_cases [OF assms] show ?thesis
    by (auto simp add: divisor_of_def js_or_num_def)
qed

lemma not_negative_div:
  assumes "not_negative n" and "dv = PosInf \<or> (\<exists>c. dv = Num c \<and> 0 < c)"
  shows "not_negative (js_div n dv)"
proof (cases n)
  case (Num x)
  with assms(1) have x: "0 \<le> x"
    by (simp add: not_negative_def)
  from assms(2) show ?thesis
  proof
    assume "dv = PosInf"
    with Num show ?thesis
      by (simp add: not_negative_def)
  next
    assume "\<exists>c. dv = Num c \<and> 0 < c"
    then obtain c where c: "dv = Num c" "0 < c"
      by blast
    with x have "0 \<le> x / c"
      by simp
    then show ?thesis
      using Num c not_negative_fl [of "x / c"] by simp
  qed
next
  case PosInf
  with assms(2) show ?thesis
    by (auto simp add: not_negative_def)
next
  case NegInf
  with assms(1) show ?thesis
    by (simp add: not_negative_def)
next
  case NaN
  then show ?thesis
    by (simp add: not_negative_def)
qed

lemma score_of_not_negative:
  assumes "0 \<le> prob" and "js_nonneg (size_res r)" and "js_nonneg (latency r)"
  shows "not_negative (score_of p now prob r)"
proof -
  have n: "not_negative (js_mul (Num prob) (decay_of p now r))"
    using assms(1) by (rule not_negative_mul) (simp add: decay_of_def not_negative_exp)
  have "(0::real) < 1 / 2 ^ 1075"
    by simp
  then have "0 < c" if "1 / 2 ^ 1075 < c" for c :: real
    using that by linarith
  with divisor_of_cases [OF assms(2,3)]
  have "divisor_of r = PosInf \<or> (\<exists>c. divisor_of r = Num c \<and> 0 < c)"
    by auto
  with n show ?thesis
    unfolding score_of_def by (rule not_negative_div)
qed


lemma decay_of_unit:
  assumes "decayRate p = Num l" and "0 \<le> l" and "lastUsed r \<le> now"
  shows "\<exists>d. decay_of p now r = Num d \<and> 0 \<le> d \<and> d \<le> 1"
proof -
  define x where "x = - l * (real_of_int (now - lastUsed r) / 1000)"
  have x: "x \<le> 0"
    using assms(2,3) unfolding x_def by (simp add: mult_nonneg_nonneg)
  have d: "decay_of p now r = js_exp (fl x)"
    unfolding x_def decay_of_def Let_def assms(1) by simp
  from fl_nonpos [OF x] show ?thesis
  proof
    assume "fl x = NegInf"
    then show ?thesis
      unfolding d by simp
  next
    assume "\<exists>y. fl x = Num y \<and> y \<le> 0"
    then obtain y where y: "fl x = Num y" "y \<le> 0"
      by blast
    have "0 \<le> exp y" "exp y \<le> 1"
      using y(2) by simp_all
    then show ?thesis
      unfolding d y(1) using fl_unit [of "exp y"] by simp
  qed
qed

lemma score_of_finite:
  assumes "0 \<le> prob" and "prob \<le> 1"
    and "js_nonneg (size_res r)" and "js_nonneg (latency r)"
    and "decayRate p = Num l" and "0 \<le> l" and "lastUsed r \<le> now"
    and "\<not> subnormal (cost_of r)"
  shows "\<exists>x. score_of p now prob r = Num x \<and> 0 \<le> x"
proof -
  obtain d where d: "decay_of p now r = Num d" "0 \<le> d" "d \<le> 1"
    using decay_of_unit [OF assms(5,6,7)] by blast
  have "0 \<le> prob * d" "prob * d \<le> 1"
    using assms(1,2) d(2,3) by (simp_all add: mult_le_one)
  then obtain n where n: "fl (prob * d) = Num n" "0 \<le> n" "n \<le> 1"
    using fl_unit by blast
  have s: "score_of p now prob r = js_div (Num n) (divisor_of r)"
    by (simp add: score_of_def d(1) n(1))
  from divisor_of_cases [OF assms(3,4)] consider
      (inf) "divisor_of r = PosInf"
    | (one) "divisor_of r = Num 1"
    | (num) c where "divisor_of r = Num c" "cost_of r = Num c" "1 / 2 ^ 1075 < c"
    by blast
  then show ?thesis
  proof cases
    case inf
    then show ?thesis
      unfolding s by simp
  next
    case one
    have "\<exists>x. fl n = Num x \<and> 0 \<le> x"
      using fl_unit [OF n(2,3)] by blast
    then show ?thesis
      unfolding s one by simp
  next
    case num
    have cpos: "0 < c"
      using num(3) by (rule less_trans [rotated]) simp
    from assms(8) cpos have big: "1 / 2 ^ 1022 \<le> c"
      unfolding num(2) by simp
    have q: "0 \<le> n / c"
      using n(2) cpos by simp
    have sc: "score_of p now prob r = fl (n / c)"
      unfolding s num(1) using cpos by simp
    have "n / c \<le> 1 / c"
      using n(3) cpos by (simp add: divide_right_mono)
    also have "1 / c \<le> 2 ^ 1022"
      using big cpos by (simp add: field_simps)
    also have "(2::real) ^ 1022 < 2 ^ 1024 - 2 ^ 970"
      by simp
    finally have "n / c < 2 ^ 1024 - 2 ^ 970" .
    then show ?thesis
      unfolding sc using fl_nonneg [OF q] by auto
  qed
qed

lemma set_array_sort: "set (array_sort cmp xs) = set xs"
  by (metis mset_array_sort set_mset_mset)

lemma scoreResources_entry:
  assumes "sc \<in> set (fst (scoreResources predictions now p))"
  shows "\<exists>pr \<in> set predictions. \<exists>(u, r) \<in> set (resources p).
           str_includes u (state pr) \<and> sc = \<lparr> url = u, score = score_of p now (probability pr) r \<rparr>"
  using assms by (auto simp add: scoreResources_def set_array_sort split: if_splits)

text \<open>
  C3. \<open>scoreResources\<close> has no failing branch: no operation in its body throws on
  predictions and resources of these types, and it returns a list for every input.
  Let the probabilities lie in \<open>[0, 1]\<close> and let sizes, latencies and \<open>decayRate\<close> be
  non-negative, \<open>Infinity\<close> included. Then no score is negative: each is a non-negative
  number, \<open>Infinity\<close> or \<open>NaN\<close>. A cost that evaluates to \<open>0\<close> is replaced by the
  divisor \<open>1\<close>. Every score is a finite non-negative number when, in addition,
  \<open>decayRate\<close> is finite, no resource was used later than \<open>now\<close>, and no cost is a
  nonzero subnormal double.
\<close>

theorem scores_not_negative:
  assumes "\<forall>pr \<in> set predictions. 0 \<le> probability pr \<and> probability pr \<le> 1"
    and "\<forall>(u, r) \<in> set (resources p). js_nonneg (size_res r) \<and> js_nonneg (latency r)"
    and "js_nonneg (decayRate p)"
    and "sc \<in> set (fst (scoreResources predictions now p))"
  shows "(score sc = NaN \<or> score sc = PosInf \<or> (\<exists>x. score sc = Num x \<and> 0 \<le> x)) \<and>
         (js_finite (decayRate p) \<and>
          (\<forall>(u, r) \<in> set (resources p). lastUsed r \<le> now \<and> \<not> subnormal (cost_of r))
            \<longrightarrow> (\<exists>x. score sc = Num x \<and> 0 \<le> x)) \<and>
         (\<forall>(u, r) \<in> set (resources p).
             (\<forall>a b. size_res r = Num a \<and> latency r = Num b \<and> a * b \<le> 1 / 2 ^ 1075
                      \<longrightarrow> cost_of r = Num 0) \<and>
             (cost_of r = Num 0 \<longrightarrow> divisor_of r = Num 1))"
proof -
  obtain pr u r where e: "pr \<in> set predictions" "(u, r) \<in> set (resources p)"
      "sc = \<lparr> url = u, score = score_of p now (probability pr) r \<rparr>"
    using scoreResources_entry [OF assms(4)] by blast
  have pr: "0 \<le> probability pr" "probability pr \<le> 1"
    using assms(1) e(1) by auto
  have r: "js_nonneg (size_res r)" "js_nonneg (latency r)"
    using assms(2) e(2) by auto
  have sc: "score sc = score_of p now (probability pr) r"
    by (simp add: e(3))
  have a: "score sc = NaN \<or> score sc = PosInf \<or> (\<exists>x. score sc = Num x \<and> 0 \<le> x)"
    unfolding sc using score_of_not_negative [OF pr(1) r] by (simp add: not_negative_def)
  have b: "\<exists>x. score sc = Num x \<and> 0 \<le> x"
    if fin: "js_finite (decayRate p)"
      and ok: "\<forall>(u, r) \<in> set (resources p). lastUsed r \<le> now \<and> \<not> subnormal (cost_of r)"
  proof -
    obtain l where l: "decayRate p = Num l" "0 \<le> l"
      using fin assms(3) by (cases "decayRate p") simp_all
    from ok e(2) have "lastUsed r \<le> now" "\<not> subnormal (cost_of r)"
      by auto
    then show ?thesis
      unfolding sc using score_of_finite [OF pr r l] by blast
  qed
  have c: "(\<forall>a b. size_res r' = Num a \<and> latency r' = Num b \<and> a * b \<le> 1 / 2 ^ 1075
                    \<longrightarrow> cost_of r' = Num 0) \<and>
           (cost_of r' = Num 0 \<longrightarrow> divisor_of r' = Num 1)"
    if "(u', r') \<in> set (resources p)" for u' r'
  proof -
    have "cost_of r' = Num 0"
      if "size_res r' = Num a" "latency r' = Num b" "a * b \<le> 1 / 2 ^ 1075" for a b
    proof -
      have "js_nonneg (size_res r')" "js_nonneg (latency r')"
        using assms(2) \<open>(u', r') \<in> set (resources p)\<close> by auto
      then have "0 \<le> a * b"
        using that(1,2) by simp
      then show ?thesis
        using that by (simp only: cost_of_def js_mul.simps fl_def abs_of_nonneg if_True)
    qed
    then show ?thesis
      by (simp add: divisor_of_def js_or_num_def)
  qed
  from a b c show ?thesis
    by blast
qed


lemma products_registry_state:
  "products_registry =
     \<lparr> maxPrefetch = 3, decayRate = Num (1 / 10), transitions = [],
       resources =
         [(''/api/products'', \<lparr> size_res = Num 500, latency = Num 200, lastUsed = 0 \<rparr>),
          (''/products.css'', \<lparr> size_res = Num 0, latency = Num 100, lastUsed = 0 \<rparr>)],
       currentState = None \<rparr>"
  by (simp add: products_registry_def run_def addResource_def new_def no_options_def js_or_def
        js_or_opt_def js_default_def)

lemma products_registry_scores:
  "fst (scoreResources [\<lparr> state = ''/products'', probability = 3 / 4 \<rparr>] 0 products_registry)
     = [\<lparr> url = ''/products.css'', score = Num (3 / 4) \<rparr>,
        \<lparr> url = ''/api/products'', score = Num (3 / 400000) \<rparr>]"
  by (simp add: products_registry_state scoreResources_def array_sort_def score_of_def
        decay_of_def divisor_of_def js_or_num_def cost_of_def fl_def fl_sum_def
        by_score_desc_def)

theorem scores_not_negative_witness:
  "(0 :: real) \<le> 3 / 4 \<and> (3 / 4 :: real) \<le> 1 \<and>
   resources products_registry
     = [(''/api/products'', \<lparr> size_res = Num 500, latency = Num 200, lastUsed = 0 \<rparr>),
        (''/products.css'', \<lparr> size_res = Num 0, latency = Num 100, lastUsed = 0 \<rparr>)] \<and>
   decayRate products_registry = Num (1 / 10) \<and>
   cost_of \<lparr> size_res = Num 500, latency = Num 200, lastUsed = 0 \<rparr> = Num 100000 \<and>
   cost_of \<lparr> size_res = Num 0, latency = Num 100, lastUsed = 0 \<rparr> = Num 0 \<and>
   divisor_of \<lparr> size_res = Num 0, latency = Num 100, lastUsed = 0 \<rparr> = Num 1 \<and>
   fst (scoreResources [\<lparr> state = ''/products'', probability = 3 / 4 \<rparr>] 0 products_registry)
     = [\<lparr> url = ''/products.css'', score = Num (3 / 4) \<rparr>,
        \<lparr> url = ''/api/products'', score = Num (3 / 400000) \<rparr>]"
proof -
  let ?ps = "[\<lparr> state = ''/products'', probability = 3 / 4 \<rparr>]"
  let ?sc = "\<lparr> url = ''/products.css'', score = Num (3 / 4) \<rparr>"
  let ?api = "\<lparr> size_res = Num 500, latency = Num 200, lastUsed = 0 \<rparr>"
  let ?css = "\<lparr> size_res = Num 0, latency = Num 100, lastUsed = 0 \<rparr>"
  have h1: "\<forall>pr \<in> set ?ps. 0 \<le> probability pr \<and> probability pr \<le> 1"
    by simp
  have h2: "\<forall>(u, r) \<in> set (resources products_registry).
              js_nonneg (size_res r) \<and> js_nonneg (latency r)"
    by (simp add: products_registry_state)
  have h3: "js_nonneg (decayRate products_registry)"
    by (simp add: products_registry_state)
  have h4: "?sc \<in> set (fst (scoreResources ?ps 0 products_registry))"
    by (simp add: products_registry_scores)
  have api: "cost_of ?api = Num 100000"
    by (simp add: cost_of_def fl_def fl_sum_def)
  have h5: "js_finite (decayRate products_registry)"
    by (simp add: products_registry_state)
  have css: "(''/products.css'', ?css) \<in> set (resources products_registry)"
    by (simp add: products_registry_state)
  have small: "size_res ?css = Num 0 \<and> latency ?css = Num 100 \<and> (0 :: real) * 100 \<le> 1 / 2 ^ 1075"
    by simp
  note main = scores_not_negative [OF h1 h2 h3 h4]
  from main css small have zero: "cost_of ?css = Num 0 \<and> divisor_of ?css = Num 1"
    by fast
  have h6: "\<forall>(u, r) \<in> set (resources products_registry).
              lastUsed r \<le> 0 \<and> \<not> subnormal (cost_of r)"
    using api zero by (simp add: products_registry_state)
  from main h5 h6 have "\<exists>x. score ?sc = Num x \<and> 0 \<le> x"
    by fast
  then show ?thesis
    using api zero products_registry_scores by (simp add: products_registry_state)
qed

text \<open>
  Each of the three additional conditions is needed. With every original condition
  met: a subnormal cost is not \<open>0\<close>, so it is the divisor, and the quotient overflows to
  \<open>Infinity\<close>; a resource used 10240 seconds after \<open>now\<close> (the clock was set back) has
  the decay \<open>exp(1024) = Infinity\<close> at the default rate, and the score is \<open>NaN\<close> for
  probability 0 and \<open>Infinity\<close> for probability 1; with \<open>decayRate = Infinity\<close> and no
  time elapsed, \<open>-Infinity * 0\<close> is \<open>NaN\<close>, and so is the score.
\<close>

lemma tiny_cost_state:
  "tiny_cost =
     \<lparr> maxPrefetch = 3, decayRate = Num (1 / 10), transitions = [],
       resources =
         [(''/a'', \<lparr> size_res = Num (1 / 2 ^ 520), latency = Num (1 / 2 ^ 520), lastUsed = 0 \<rparr>)],
       currentState = None \<rparr>"
  by (simp add: tiny_cost_def addResource_def new_def no_options_def js_or_def js_or_opt_def
        js_default_def)

lemma tiny_cost_scores:
  "cost_of \<lparr> size_res = Num (1 / 2 ^ 520), latency = Num (1 / 2 ^ 520), lastUsed = 0 \<rparr>
     = Num (1 / 2 ^ 1040) \<and>
   fst (scoreResources [\<lparr> state = ''/a'', probability = 1 \<rparr>] 0 tiny_cost)
     = [\<lparr> url = ''/a'', score = PosInf \<rparr>]"
  by (simp add: tiny_cost_state scoreResources_def array_sort_def score_of_def decay_of_def
        divisor_of_def js_or_num_def cost_of_def fl_def fl_sum_def)

lemma used_later_state:
  "used_later =
     \<lparr> maxPrefetch = 3, decayRate = Num (1 / 10), transitions = [],
       resources = [(''/a'', \<lparr> size_res = Num 100, latency = Num 100, lastUsed = 10240000 \<rparr>)],
       currentState = None \<rparr>"
  by (simp add: used_later_def addResource_def new_def no_options_def js_or_def js_or_opt_def
        js_default_def)

lemma exp_1024_overflows: "fl (exp 1024) = PosInf"
proof -
  have "(2::real) \<le> exp 1"
    using exp_ge_add_one_self [of "1::real"] by simp
  then have "(2::real) ^ 1024 \<le> exp 1 ^ 1024"
    by (rule power_mono) simp
  also have "exp (1::real) ^ 1024 = exp 1024"
    using exp_of_nat_mult [of 1024 "1::real"] by simp
  finally have big: "(2::real) ^ 1024 \<le> exp 1024" .
  have "(2::real) ^ 1024 - 2 ^ 970 \<le> 2 ^ 1024"
    by simp
  from this big have thr: "(2::real) ^ 1024 - 2 ^ 970 \<le> exp 1024"
    by (rule order_trans)
  have "(1::real) / 2 ^ 1075 < 2 ^ 1024"
    by simp
  with big have "\<not> \<bar>exp (1024::real)\<bar> \<le> 1 / 2 ^ 1075"
    by simp
  with thr show ?thesis
    by (simp only: fl_def fl_sum_def if_True if_False)
qed

lemma used_later_decay:
  "decay_of used_later 0 \<lparr> size_res = Num 100, latency = Num 100, lastUsed = 10240000 \<rparr> = PosInf"
proof -
  have "js_mul (js_neg (Num (1 / 10))) (Num (real_of_int (0 - 10240000) / 1000)) = Num 1024"
    by (simp add: fl_def fl_sum_def)
  then show ?thesis
    by (simp add: used_later_state decay_of_def exp_1024_overflows)
qed

lemma used_later_scores:
  "fst (scoreResources [\<lparr> state = ''/a'', probability = 0 \<rparr>] 0 used_later)
     = [\<lparr> url = ''/a'', score = NaN \<rparr>] \<and>
   fst (scoreResources [\<lparr> state = ''/a'', probability = 1 \<rparr>] 0 used_later)
     = [\<lparr> url = ''/a'', score = PosInf \<rparr>]"
proof -
  let ?r = "\<lparr> size_res = Num 100, latency = Num 100, lastUsed = 10240000 \<rparr>"
  have dv: "divisor_of ?r = Num 10000"
    by (simp add: divisor_of_def js_or_num_def cost_of_def fl_def fl_sum_def)
  have "score_of used_later 0 0 ?r = NaN" "score_of used_later 0 1 ?r = PosInf"
    by (simp_all add: score_of_def used_later_decay dv)
  then show ?thesis
    by (simp add: scoreResources_def array_sort_def used_later_state [symmetric])
       (simp add: used_later_state)
qed

lemma infinite_decay_state:
  "infinite_decay =
     \<lparr> maxPrefetch = 3, decayRate = PosInf, transitions = [],
       resources = [(''/a'', \<lparr> size_res = Num 100, latency = Num 100, lastUsed = 0 \<rparr>)],
       currentState = None \<rparr>"
  by (simp add: infinite_decay_def addResource_def new_def js_or_def js_or_opt_def
        js_or_num_def js_default_def)

lemma infinite_decay_scores:
  "fst (scoreResources [\<lparr> state = ''/a'', probability = 1 \<rparr>] 0 infinite_decay)
     = [\<lparr> url = ''/a'', score = NaN \<rparr>]"
  by (simp add: infinite_decay_state scoreResources_def array_sort_def score_of_def
        decay_of_def divisor_of_def js_or_num_def cost_of_def fl_def fl_sum_def)

theorem scores_not_always_finite:
  "decayRate tiny_cost = Num (1 / 10) \<and>
   resources tiny_cost =
     [(''/a'', \<lparr> size_res = Num (1 / 2 ^ 520), latency = Num (1 / 2 ^ 520), lastUsed = 0 \<rparr>)] \<and>
   fst (scoreResources [\<lparr> state = ''/a'', probability = 1 \<rparr>] 0 tiny_cost)
     = [\<lparr> url = ''/a'', score = PosInf \<rparr>] \<and>
   decayRate used_later = Num (1 / 10) \<and>
   resources used_later =
     [(''/a'', \<lparr> size_res = Num 100, latency = Num 100, lastUsed = 10240000 \<rparr>)] \<and>
   fst (scoreResources [\<lparr> state = ''/a'', probability = 0 \<rparr>] 0 used_later)
     = [\<lparr> url = ''/a'', score = NaN \<rparr>] \<and>
   fst (scoreResources [\<lparr> state = ''/a'', probability = 1 \<rparr>] 0 used_later)
     = [\<lparr> url = ''/a'', score = PosInf \<rparr>] \<and>
   decayRate infinite_decay = PosInf \<and>
   resources infinite_decay =
     [(''/a'', \<lparr> size_res = Num 100, latency = Num 100, lastUsed = 0 \<rparr>)] \<and>
   fst (scoreResources [\<lparr> state = ''/a'', probability = 1 \<rparr>] 0 infinite_decay)
     = [\<lparr> url = ''/a'', score = NaN \<rparr>]"
  using tiny_cost_scores used_later_scores infinite_decay_scores
  by (simp add: tiny_cost_state used_later_state infinite_decay_state)

end
